theory Spec2Isabelle
  imports Main "HOL-Library.Word"
begin

unbundle bit_operations_syntax

section \<open>Channels of soliloque-server: data model\<close>

text \<open>
  The development embeds the channel module (the C file defining \<^verbatim>\<open>new_channel\<close>,
  \<^verbatim>\<open>channel_to_data\<close>, \<^verbatim>\<open>channel_from_data\<close>, \<^verbatim>\<open>channel_add_subchannel\<close>,
  \<^verbatim>\<open>ch_getflags\<close>, \<^verbatim>\<open>ch_isfull\<close>, \<^verbatim>\<open>add_player_to_channel\<close> and
  \<^verbatim>\<open>get_player_channel_privilege\<close>).

  Objects live in explicit stores: a pointer is an address (\<open>addr\<close>), a pointer that may be
  \<^verbatim>\<open>NULL\<close> is an \<open>addr option\<close>, and every non-null pointer designates a live object of
  its type. Integer widths follow the LP64 data model: \<^verbatim>\<open>int\<close> has 32 bits,
  \<^verbatim>\<open>size_t\<close> and \<^verbatim>\<open>ptrdiff_t\<close> have 64 bits.
\<close>

type_synonym addr = nat
type_synonym byte = "8 word"
type_synonym size_t = "64 word"

text \<open>
  The headers \<^verbatim>\<open>channel.h\<close>, \<^verbatim>\<open>player.h\<close> and \<^verbatim>\<open>array.h\<close> are not part of the
  sources at hand. The values of the flag macros and the condition under which the
  container refuses an insertion are therefore parameters of the model. The macros are
  \<^verbatim>\<open>int\<close> constants, hence 32-bit patterns.
\<close>

record array =
  slots :: "addr list"
  used_slots :: size_t
  max_slots :: size_t

record params =
  CHANNEL_FLAG_UNREGISTERED :: "32 word"
  CHANNEL_FLAG_SUBCHANNELS :: "32 word"
  CHANNEL_FLAG_DEFAULT :: "32 word"
  GLOBAL_FLAG_REGISTERED :: "32 word"
  ar_full :: "array \<Rightarrow> bool"

datatype ar_status = AR_OK | AR_ERR

text \<open>
  Modelled from the spec: the generic container of \<^verbatim>\<open>array.h\<close> is missing. The spec
  describes it as an ordered, insertion-stable container with the counters
  \<^verbatim>\<open>used_slots\<close> and \<^verbatim>\<open>max_slots\<close>, whose insert fails if the container is full and
  returns a status code, whose remove is a no-op if the element is absent, and which is
  iterated in insertion order. What "full" means is left open by the spec: it is the
  parameter \<open>ar_full\<close>.
\<close>

definition ar_new :: "nat \<Rightarrow> array" where
  "ar_new n = \<lparr>slots = [], used_slots = 0, max_slots = 0\<rparr>"

definition ar_insert :: "params \<Rightarrow> array \<Rightarrow> addr \<Rightarrow> ar_status \<times> array" where
  "ar_insert K a x =
     (if ar_full K a then (AR_ERR, a)
      else (AR_OK, a\<lparr>slots := slots a @ [x], used_slots := used_slots a + 1\<rparr>))"

definition ar_remove :: "array \<Rightarrow> addr \<Rightarrow> array" where
  "ar_remove a x =
     (if x \<in> set (slots a)
      then a\<lparr>slots := remove1 x (slots a), used_slots := used_slots a - 1\<rparr>
      else a)"

text \<open>
  \<^verbatim>\<open>struct channel\<close>. The field \<^verbatim>\<open>id\<close> is called \<open>chan_id\<close> here. The strings
  \<open>name\<close>, \<open>topic\<close> and \<open>desc\<close> hold the bytes before the terminating NUL. The three
  containers are owned by the channel and are kept inside the record.
\<close>

record channel =
  chan_id :: "32 word"
  name :: "byte list"
  topic :: "byte list"
  desc :: "byte list"
  flags :: "16 word"
  codec :: "16 word"
  sort_order :: "16 word"
  password :: "byte list"
  players :: array
  subchannels :: array
  parent :: "addr option"
  parent_id :: "32 word"
  pl_privileges :: array
  in_server :: "addr option"

type_synonym chan_heap = "addr \<Rightarrow> channel"

section \<open>Flags, capacity and the channel tree\<close>

text \<open>
  \<^verbatim>\<open>ch_getflags\<close>: the stored flags of a top channel; for a subchannel the stored flags
  of its parent, without the bits of \<^verbatim>\<open>CHANNEL_FLAG_SUBCHANNELS\<close> and
  \<^verbatim>\<open>CHANNEL_FLAG_DEFAULT\<close>. The result is an \<^verbatim>\<open>int\<close>; the 16-bit field is
  zero-extended.
\<close>

definition ch_getflags :: "params \<Rightarrow> chan_heap \<Rightarrow> addr \<Rightarrow> 32 word" where
  "ch_getflags K h ch =
     (case parent (h ch) of
        None \<Rightarrow> ucast (flags (h ch))
      | Some p \<Rightarrow>
          (ucast (flags (h p)) AND NOT (CHANNEL_FLAG_SUBCHANNELS K))
            AND NOT (CHANNEL_FLAG_DEFAULT K))"

text \<open>
  \<^verbatim>\<open>ch_isfull\<close> looks at the stored flags of the channel itself. For the default
  channel it compares \<^verbatim>\<open>used_slots\<close> with \<^verbatim>\<open>(size_t) -1\<close>.
\<close>

definition ch_isfull :: "params \<Rightarrow> chan_heap \<Rightarrow> addr \<Rightarrow> bool" where
  "ch_isfull K h ch =
     (if ucast (flags (h ch)) AND CHANNEL_FLAG_DEFAULT K \<noteq> 0
      then used_slots (players (h ch)) = - 1
      else used_slots (players (h ch)) \<ge> max_slots (players (h ch)))"

text \<open>
  \<^verbatim>\<open>channel_remove_subchannel\<close>: the first argument may be \<^verbatim>\<open>NULL\<close>. The two
  assignments are made one after the other, so that the model is right also when both
  pointers are the same.
\<close>

definition channel_remove_subchannel ::
  "chan_heap \<Rightarrow> addr option \<Rightarrow> addr \<Rightarrow> int \<times> chan_heap" where
  "channel_remove_subchannel h ch subchannel =
     (if ch \<noteq> parent (h subchannel) then (0, h)
      else case ch of
        None \<Rightarrow> (0, h)
      | Some c \<Rightarrow>
          (let h1 = h(c := (h c)\<lparr>subchannels := ar_remove (subchannels (h c)) subchannel\<rparr>);
               h2 = h1(subchannel := (h1 subchannel)\<lparr>parent := None\<rparr>)
           in (1, h2)))"

text \<open>
  \<^verbatim>\<open>channel_add_subchannel\<close>: the results of \<^verbatim>\<open>channel_remove_subchannel\<close> and of
  \<^verbatim>\<open>ar_insert\<close> are not looked at.
\<close>

definition channel_add_subchannel ::
  "params \<Rightarrow> chan_heap \<Rightarrow> addr \<Rightarrow> addr \<Rightarrow> int \<times> chan_heap" where
  "channel_add_subchannel K h ch subchannel =
     (if ch_getflags K h ch AND CHANNEL_FLAG_SUBCHANNELS K = 0 then (0, h)
      else
        (let h1 = (if parent (h subchannel) \<noteq> None
                   then snd (channel_remove_subchannel h (parent (h subchannel)) subchannel)
                   else h);
             h2 = h1(subchannel := (h1 subchannel)\<lparr>parent := Some ch\<rparr>);
             h3 = h2(ch := (h2 ch)\<lparr>subchannels :=
                         snd (ar_insert K (subchannels (h2 ch)) subchannel)\<rparr>)
         in (1, h3)))"

section \<open>Membership\<close>

text \<open>
  \<^verbatim>\<open>struct player\<close>, as far as this module reads and writes it: the channel the player
  is in, the registration (\<^verbatim>\<open>pl->reg\<close>, called \<open>pl_reg\<close> here) and the global flags.
\<close>

record player =
  in_chan :: "addr option"
  pl_reg :: "addr option"
  global_flags :: "32 word"

text \<open>
  \<^verbatim>\<open>struct player_channel_privilege\<close>: the fields \<^verbatim>\<open>ch\<close>, \<^verbatim>\<open>reg\<close> (the tag,
  \<open>pcp_reg\<close>), the union \<^verbatim>\<open>pl_or_reg\<close> (one pointer, read as a registration or as a
  player according to the tag) and the privilege level (\<open>pcp_flags\<close>).
  Modelled from the spec: the header declaring the tag values is missing; the spec calls
  the record a tagged union of two mutually exclusive cases, hence the two constructors.
\<close>

datatype priv_tag = PL_CH_PRIV_REGISTERED | PL_CH_PRIV_UNREGISTERED

record player_channel_privilege =
  pcp_ch :: "addr option"
  pcp_reg :: priv_tag
  pl_or_reg :: "addr option"
  pcp_flags :: "16 word"

text \<open>
  The whole state: the stores of channels, players and privilege records, the
  \<^verbatim>\<open>conf\<close> pointer of every server, the next free address for a privilege record, and
  the list of the calls made to the persistence hook.
\<close>

record state =
  chans :: chan_heap
  pls :: "addr \<Rightarrow> player"
  privs :: "addr \<Rightarrow> player_channel_privilege"
  srv_conf :: "addr \<Rightarrow> addr option"
  next_priv :: addr
  db :: "(addr option \<times> addr) list"

datatype error = NullDeref | OutOfBounds | AssertFailed

text \<open>\<^verbatim>\<open>add_player_to_channel\<close>.\<close>

definition add_player_to_channel :: "params \<Rightarrow> state \<Rightarrow> addr \<Rightarrow> addr \<Rightarrow> int \<times> state" where
  "add_player_to_channel K s chan pl =
     (if ch_isfull K (chans s) chan then (0, s)
      else case ar_insert K (players (chans s chan)) pl of
        (AR_OK, a) \<Rightarrow>
          (1, s\<lparr>chans := (chans s)(chan := (chans s chan)\<lparr>players := a\<rparr>),
                pls := (pls s)(pl := (pls s pl)\<lparr>in_chan := Some chan\<rparr>)\<rparr>)
      | (AR_ERR, a) \<Rightarrow>
          (0, s\<lparr>chans := (chans s)(chan := (chans s chan)\<lparr>players := a\<rparr>)\<rparr>))"

section \<open>Privileges\<close>

text \<open>
  Modelled from the spec: \<^verbatim>\<open>new_player_channel_privilege\<close> is missing. It constructs a
  new privilege record; here it takes the next free address and zero-initialises the
  record. Its allocation is taken to succeed.
\<close>

definition new_player_channel_privilege :: "state \<Rightarrow> addr \<times> state" where
  "new_player_channel_privilege s =
     (next_priv s,
      s\<lparr>privs := (privs s)(next_priv s :=
            \<lparr>pcp_ch = None, pcp_reg = PL_CH_PRIV_UNREGISTERED, pl_or_reg = None,
             pcp_flags = 0\<rparr>),
        next_priv := Suc (next_priv s)\<rparr>)"

text \<open>
  Modelled from the spec: \<^verbatim>\<open>db_add_pl_chan_priv\<close> is the persistence hook, an external
  call; its failure does not change the state in memory. Here it records its arguments.
\<close>

definition db_add_pl_chan_priv :: "state \<Rightarrow> addr option \<Rightarrow> addr \<Rightarrow> state" where
  "db_add_pl_chan_priv s conf priv = s\<lparr>db := db s @ [(conf, priv)]\<rparr>"

text \<open>\<^verbatim>\<open>add_player_channel_privilege\<close>: the result of \<^verbatim>\<open>ar_insert\<close> is dropped.\<close>

definition add_player_channel_privilege :: "params \<Rightarrow> state \<Rightarrow> addr \<Rightarrow> addr \<Rightarrow> state" where
  "add_player_channel_privilege K s ch priv =
     s\<lparr>chans := (chans s)(ch := (chans s ch)\<lparr>pl_privileges :=
          snd (ar_insert K (pl_privileges (chans s ch)) priv)\<rparr>)\<rparr>"

text \<open>
  The loop of \<^verbatim>\<open>get_player_channel_privilege\<close> over the privileges of the top channel,
  in the order of the container: the first record that matches is returned.
\<close>

fun find_priv :: "state \<Rightarrow> addr \<Rightarrow> addr list \<Rightarrow> addr option" where
  "find_priv s pl [] = None"
| "find_priv s pl (x # xs) =
     (if pcp_reg (privs s x) = PL_CH_PRIV_REGISTERED
         \<and> pl_or_reg (privs s x) = pl_reg (pls s pl) then Some x
      else if pcp_reg (privs s x) = PL_CH_PRIV_UNREGISTERED
         \<and> pl_or_reg (privs s x) = Some pl then Some x
      else find_priv s pl xs)"

text \<open>
  \<^verbatim>\<open>get_player_channel_privilege\<close>. The argument of the persistence hook is
  \<^verbatim>\<open>tmp_ch->in_server->conf\<close>: a channel that is in no server makes this a null
  dereference.
\<close>

definition top_channel :: "chan_heap \<Rightarrow> addr \<Rightarrow> addr" where
  "top_channel h ch = (case parent (h ch) of None \<Rightarrow> ch | Some p \<Rightarrow> p)"

definition get_player_channel_privilege ::
  "params \<Rightarrow> state \<Rightarrow> addr \<Rightarrow> addr \<Rightarrow> error + (addr \<times> state)" where
  "get_player_channel_privilege K s pl ch =
     (let tmp_ch = top_channel (chans s) ch in
      case find_priv s pl (slots (pl_privileges (chans s tmp_ch))) of
        Some p \<Rightarrow> Inr (p, s)
      | None \<Rightarrow>
          (let (tmp_priv, s1) = new_player_channel_privilege s;
               s2 = s1\<lparr>privs := (privs s1)(tmp_priv := (privs s1 tmp_priv)\<lparr>pcp_ch := Some tmp_ch\<rparr>)\<rparr>
           in
             if global_flags (pls s2 pl) AND GLOBAL_FLAG_REGISTERED K \<noteq> 0 then
               (let s3 = s2\<lparr>privs := (privs s2)(tmp_priv := (privs s2 tmp_priv)
                            \<lparr>pcp_reg := PL_CH_PRIV_REGISTERED\<rparr>)\<rparr>;
                    s4 = s3\<lparr>privs := (privs s3)(tmp_priv := (privs s3 tmp_priv)
                            \<lparr>pl_or_reg := pl_reg (pls s3 pl)\<rparr>)\<rparr>
                in
                  if ucast (flags (chans s4 tmp_ch)) AND CHANNEL_FLAG_UNREGISTERED K = 0 then
                    (case in_server (chans s4 tmp_ch) of
                       None \<Rightarrow> Inl NullDeref
                     | Some srv \<Rightarrow>
                         Inr (tmp_priv,
                              add_player_channel_privilege K
                                (db_add_pl_chan_priv s4 (srv_conf s4 srv) tmp_priv)
                                tmp_ch tmp_priv))
                  else Inr (tmp_priv, add_player_channel_privilege K s4 tmp_ch tmp_priv))
             else
               (let s3 = s2\<lparr>privs := (privs s2)(tmp_priv := (privs s2 tmp_priv)
                            \<lparr>pcp_reg := PL_CH_PRIV_UNREGISTERED\<rparr>)\<rparr>;
                    s4 = s3\<lparr>privs := (privs s3)(tmp_priv := (privs s3 tmp_priv)
                            \<lparr>pl_or_reg := Some pl\<rparr>)\<rparr>
                in Inr (tmp_priv, add_player_channel_privilege K s4 tmp_ch tmp_priv))))"

text \<open>The state after \<open>n\<close> calls for the same player and channel, if none of them fails.\<close>

fun privilege_calls :: "params \<Rightarrow> nat \<Rightarrow> state \<Rightarrow> addr \<Rightarrow> addr \<Rightarrow> error + state" where
  "privilege_calls K 0 s pl ch = Inr s"
| "privilege_calls K (Suc n) s pl ch =
     (case privilege_calls K n s pl ch of
        Inl e \<Rightarrow> Inl e
      | Inr s' \<Rightarrow>
          (case get_player_channel_privilege K s' pl ch of
             Inl e \<Rightarrow> Inl e
           | Inr (r, s'') \<Rightarrow> Inr s''))"

section \<open>The wire codec\<close>

text \<open>
  Modelled from the spec: the helpers \<^verbatim>\<open>wu16\<close>, \<^verbatim>\<open>wu32\<close>, \<^verbatim>\<open>ru16\<close> and
  \<^verbatim>\<open>ru32\<close> are missing. By the spec the layout is big-endian without padding. A
  writer yields the bytes it stores; a reader takes the bytes at the pointer and yields
  the value and the bytes after it, or nothing when the buffer ends too early.
\<close>

definition wu16 :: "16 word \<Rightarrow> byte list" where
  "wu16 v = [ucast (drop_bit 8 v), ucast v]"

definition wu32 :: "32 word \<Rightarrow> byte list" where
  "wu32 v = [ucast (drop_bit 24 v), ucast (drop_bit 16 v), ucast (drop_bit 8 v), ucast v]"

definition ru16 :: "byte list \<Rightarrow> (16 word \<times> byte list) option" where
  "ru16 bs =
     (case bs of
        b0 # b1 # rest \<Rightarrow> Some (push_bit 8 (ucast b0) OR ucast b1, rest)
      | _ \<Rightarrow> None)"

definition ru32 :: "byte list \<Rightarrow> (32 word \<times> byte list) option" where
  "ru32 bs =
     (case bs of
        b0 # b1 # b2 # b3 # rest \<Rightarrow>
          Some (push_bit 24 (ucast b0) OR push_bit 16 (ucast b1)
                  OR push_bit 8 (ucast b2) OR ucast b3, rest)
      | _ \<Rightarrow> None)"

text \<open>
  The C string held in a buffer: the bytes before the first NUL. \<^verbatim>\<open>strlen\<close> is its
  length, \<^verbatim>\<open>strcpy\<close> writes it with the NUL, \<^verbatim>\<open>strdup\<close> copies it.
\<close>

definition cstr :: "byte list \<Rightarrow> byte list" where
  "cstr bs = takeWhile (\<lambda>b. b \<noteq> 0) bs"

definition strlen :: "byte list \<Rightarrow> nat" where
  "strlen bs = length (cstr bs)"

definition strcpy :: "byte list \<Rightarrow> byte list" where
  "strcpy bs = cstr bs @ [0]"

text \<open>Conversions: \<^verbatim>\<open>size_t\<close> to \<^verbatim>\<open>int\<close>, and a signed value to \<^verbatim>\<open>size_t\<close>.\<close>

definition size_to_int :: "nat \<Rightarrow> int" where
  "size_to_int n = sint (word_of_nat n :: 32 word)"

definition to_size_t :: "int \<Rightarrow> nat" where
  "to_size_t i = nat (i mod 2 ^ 64)"

text \<open>\<^verbatim>\<open>channel_to_data_size\<close>.\<close>

definition channel_to_data_size :: "chan_heap \<Rightarrow> addr \<Rightarrow> int" where
  "channel_to_data_size h ch =
     size_to_int (4 + 2 + 2 + 4 + 2 + 2
       + strlen (name (h ch)) + 1
       + strlen (topic (h ch)) + 1
       + strlen (desc (h ch)) + 1)"

text \<open>
  \<^verbatim>\<open>channel_to_data\<close>: the bytes written from \<^verbatim>\<open>data\<close> on, and the returned
  \<^verbatim>\<open>size\<close>. The \<^verbatim>\<open>assert\<close> compares the distance the pointer moved with \<^verbatim>\<open>size\<close>.
\<close>

definition channel_to_data :: "chan_heap \<Rightarrow> addr \<Rightarrow> error + (byte list \<times> int)" where
  "channel_to_data h ch =
     (let size = size_to_int (4 + 2 + 2 + 4 + 2 + 2
                   + strlen (name (h ch)) + 1
                   + strlen (topic (h ch)) + 1
                   + strlen (desc (h ch)) + 1);
          written =
            wu32 (chan_id (h ch)) @ wu16 (flags (h ch)) @ wu16 (codec (h ch))
            @ (case parent (h ch) of
                 None \<Rightarrow> wu32 0xFFFFFFFF
               | Some p \<Rightarrow> wu32 (chan_id (h p)))
            @ wu16 (sort_order (h ch))
            @ wu16 (ucast (max_slots (players (h ch))))
            @ strcpy (name (h ch)) @ strcpy (topic (h ch)) @ strcpy (desc (h ch))
      in if int (length written) = size then Inr (written, size) else Inl AssertFailed)"

text \<open>
  The outcomes of the allocations on the decoding path: the three \<^verbatim>\<open>strndup\<close> calls
  of \<^verbatim>\<open>channel_from_data\<close>, and in \<^verbatim>\<open>new_channel\<close> the \<^verbatim>\<open>calloc\<close> and the three
  \<^verbatim>\<open>strdup\<close> calls taken together. The containers made by \<^verbatim>\<open>ar_new\<close> are taken to
  be allocated.
\<close>

record allocs =
  name_ok :: bool
  topic_ok :: bool
  desc_ok :: bool
  calloc_ok :: bool
  strdup_ok :: bool

text \<open>
  \<^verbatim>\<open>new_channel\<close>: \<^verbatim>\<open>calloc\<close> zeroes the record, so \<^verbatim>\<open>id\<close>, \<^verbatim>\<open>parent_id\<close> and
  \<^verbatim>\<open>in_server\<close> start as 0 and \<^verbatim>\<open>NULL\<close>.
\<close>

definition new_channel ::
  "allocs \<Rightarrow> byte list \<Rightarrow> byte list \<Rightarrow> byte list \<Rightarrow> 16 word \<Rightarrow> 16 word \<Rightarrow> 16 word \<Rightarrow> 16 word
     \<Rightarrow> channel option" where
  "new_channel al nm tp ds fl cd so max_users =
     (if \<not> calloc_ok al then None
      else if \<not> strdup_ok al then None
      else Some \<lparr>chan_id = 0, name = cstr nm, topic = cstr tp, desc = cstr ds,
                 flags = fl, codec = cd, sort_order = so,
                 password = replicate 30 0,
                 players = (ar_new 4)\<lparr>max_slots := ucast max_users\<rparr>,
                 subchannels = ar_new 4,
                 parent = None, parent_id = 0,
                 pl_privileges = ar_new 4,
                 in_server = None\<rparr>)"

text \<open>
  What \<^verbatim>\<open>strndup(ptr, n)\<close> copies: the bytes at the pointer up to the first NUL, at most
  \<open>n\<close> of them. Looking at a byte after the end of the buffer is an error.
\<close>

fun strn_copy :: "byte list \<Rightarrow> nat \<Rightarrow> error + byte list" where
  "strn_copy [] n = (if n = 0 then Inr [] else Inl OutOfBounds)"
| "strn_copy (b # bs) n =
     (if n = 0 then Inr []
      else if b = 0 then Inr []
      else case strn_copy bs (n - 1) of
        Inl e \<Rightarrow> Inl e
      | Inr s \<Rightarrow> Inr (b # s))"

text \<open>\<^verbatim>\<open>strndup\<close>: \<^verbatim>\<open>NULL\<close> when the allocation fails.\<close>

definition strndup :: "bool \<Rightarrow> byte list \<Rightarrow> nat \<Rightarrow> error + byte list option" where
  "strndup ok bs n =
     (case strn_copy bs n of
        Inl e \<Rightarrow> Inl e
      | Inr s \<Rightarrow> Inr (if ok then Some s else None))"

text \<open>\<^verbatim>\<open>strlen\<close> of a pointer that may be \<^verbatim>\<open>NULL\<close>.\<close>

definition strlen_ptr :: "byte list option \<Rightarrow> error + nat" where
  "strlen_ptr p = (case p of None \<Rightarrow> Inl NullDeref | Some s \<Rightarrow> Inr (strlen s))"

definition bind_e :: "error + 'a \<Rightarrow> ('a \<Rightarrow> error + 'b) \<Rightarrow> error + 'b" where
  "bind_e m f = (case m of Inl e \<Rightarrow> Inl e | Inr x \<Rightarrow> f x)"

text \<open>
  \<^verbatim>\<open>channel_from_data\<close>. \<open>data\<close> is the buffer, \<open>len\<close> the declared length, \<open>dst\<close> what
  \<^verbatim>\<open>*dst\<close> holds before the call. The result is what \<^verbatim>\<open>*dst\<close> holds after the call
  and the returned number. The first four bytes (the id) are skipped. The pointer is
  kept as its offset \<^verbatim>\<open>ptr - data\<close>; each string is measured right after its
  \<^verbatim>\<open>strndup\<close>, before the test for \<^verbatim>\<open>NULL\<close>.
\<close>

definition channel_from_data ::
  "allocs \<Rightarrow> byte list \<Rightarrow> int \<Rightarrow> channel option \<Rightarrow> error + (channel option \<times> nat)" where
  "channel_from_data al data len dst =
     (case ru16 (drop 4 data) of None \<Rightarrow> Inl OutOfBounds | Some (fl, r1) \<Rightarrow>
      case ru16 r1 of None \<Rightarrow> Inl OutOfBounds | Some (cd, r2) \<Rightarrow>
      case ru32 r2 of None \<Rightarrow> Inl OutOfBounds | Some (pid, r3) \<Rightarrow>
      case ru16 r3 of None \<Rightarrow> Inl OutOfBounds | Some (so, r4) \<Rightarrow>
      case ru16 r4 of None \<Rightarrow> Inl OutOfBounds | Some (max_users, r5) \<Rightarrow>
        bind_e (strndup (name_ok al) (drop 16 data) (to_size_t (len - 16 - 3))) (\<lambda>nm.
        bind_e (strlen_ptr nm) (\<lambda>ln. let p1 = 16 + ln + 1 in
        bind_e (strndup (topic_ok al) (drop p1 data) (to_size_t (len - int p1 - 2))) (\<lambda>tp.
        bind_e (strlen_ptr tp) (\<lambda>lt. let p2 = p1 + lt + 1 in
        bind_e (strndup (desc_ok al) (drop p2 data) (to_size_t (len - int p2 - 1))) (\<lambda>ds.
        bind_e (strlen_ptr ds) (\<lambda>ld. let p3 = p2 + ld + 1 in
          if nm = None \<or> tp = None \<or> ds = None then Inr (dst, 0)
          else
            (let d = new_channel al (the nm) (the tp) (the ds) fl cd so max_users in
             if pid \<noteq> 0xFFFFFFFF then
               (case d of
                  None \<Rightarrow> Inl NullDeref
                | Some c \<Rightarrow> Inr (Some (c\<lparr>parent_id := pid\<rparr>), p3))
             else Inr (d, p3)))))))))"

section \<open>Notions used in the proofs about privileges\<close>

text \<open>The test made on one record by the loop of \<^verbatim>\<open>get_player_channel_privilege\<close>.\<close>

definition priv_matches :: "state \<Rightarrow> addr \<Rightarrow> addr \<Rightarrow> bool" where
  "priv_matches s pl x =
     (pcp_reg (privs s x) = PL_CH_PRIV_REGISTERED \<and> pl_or_reg (privs s x) = pl_reg (pls s pl)
      \<or> pcp_reg (privs s x) = PL_CH_PRIV_UNREGISTERED \<and> pl_or_reg (privs s x) = Some pl)"

text \<open>The record a call creates for a player when it finds none.\<close>

definition created_priv :: "params \<Rightarrow> state \<Rightarrow> addr \<Rightarrow> addr \<Rightarrow> player_channel_privilege" where
  "created_priv K s pl T =
    (if global_flags (pls s pl) AND GLOBAL_FLAG_REGISTERED K \<noteq> 0
     then \<lparr>pcp_ch = Some T, pcp_reg = PL_CH_PRIV_REGISTERED, pl_or_reg = pl_reg (pls s pl), pcp_flags = 0\<rparr>
     else \<lparr>pcp_ch = Some T, pcp_reg = PL_CH_PRIV_UNREGISTERED, pl_or_reg = Some pl, pcp_flags = 0\<rparr>)"

text \<open>The privileges of the top channel of a channel, in the order of the container.\<close>

definition owner_privs :: "state \<Rightarrow> addr \<Rightarrow> addr list" where
  "owner_privs s ch = slots (pl_privileges (chans s (top_channel (chans s) ch)))"

text \<open>The case in which creating a record dereferences a null \<^verbatim>\<open>in_server\<close>.\<close>

definition persist_fails :: "params \<Rightarrow> state \<Rightarrow> addr \<Rightarrow> addr \<Rightarrow> bool" where
  "persist_fails K s pl ch =
     (global_flags (pls s pl) AND GLOBAL_FLAG_REGISTERED K \<noteq> 0
      \<and> ucast (flags (chans s (top_channel (chans s) ch))) AND CHANNEL_FLAG_UNREGISTERED K = 0
      \<and> in_server (chans s (top_channel (chans s) ch)) = None)"

text \<open>What repeated calls for one player and channel keep, starting in \<open>s0\<close>.\<close>

definition calls_inv :: "state \<Rightarrow> addr \<Rightarrow> addr \<Rightarrow> state \<Rightarrow> bool" where
  "calls_inv s0 pl ch s =
     (top_channel (chans s) ch = top_channel (chans s0) ch
      \<and> pls s pl = pls s0 pl
      \<and> flags (chans s (top_channel (chans s0) ch)) = flags (chans s0 (top_channel (chans s0) ch))
      \<and> in_server (chans s (top_channel (chans s0) ch)) = in_server (chans s0 (top_channel (chans s0) ch))
      \<and> (owner_privs s ch = owner_privs s0 ch
         \<or> length (owner_privs s ch) = Suc (length (owner_privs s0 ch))
           \<and> find_priv s pl (owner_privs s ch) \<noteq> None))"

section \<open>Notions used in the proofs about the codec\<close>

text \<open>The bytes \<^verbatim>\<open>channel_to_data\<close> writes, and how many they are.\<close>

definition encoded :: "chan_heap \<Rightarrow> addr \<Rightarrow> byte list" where
  "encoded h ch =
     wu32 (chan_id (h ch)) @ wu16 (flags (h ch)) @ wu16 (codec (h ch))
     @ (case parent (h ch) of None \<Rightarrow> wu32 0xFFFFFFFF | Some p \<Rightarrow> wu32 (chan_id (h p)))
     @ wu16 (sort_order (h ch))
     @ wu16 (ucast (max_slots (players (h ch))))
     @ strcpy (name (h ch)) @ strcpy (topic (h ch)) @ strcpy (desc (h ch))"

definition encoded_length :: "chan_heap \<Rightarrow> addr \<Rightarrow> nat" where
  "encoded_length h ch =
     16 + (strlen (name (h ch)) + 1) + (strlen (topic (h ch)) + 1) + (strlen (desc (h ch)) + 1)"

text \<open>Every allocation on the decoding path succeeds.\<close>

definition all_allocated :: "allocs \<Rightarrow> bool" where
  "all_allocated al =
     (name_ok al \<and> topic_ok al \<and> desc_ok al \<and> calloc_ok al \<and> strdup_ok al)"

text \<open>
  A valid channel: its strings are C strings (no NUL inside), its capacity is a 16-bit
  value, as \<^verbatim>\<open>new_channel\<close> sets it, and its encoded size is an \<^verbatim>\<open>int\<close>.
\<close>

definition valid_channel :: "chan_heap \<Rightarrow> addr \<Rightarrow> bool" where
  "valid_channel h c =
     (0 \<notin> set (name (h c)) \<and> 0 \<notin> set (topic (h c)) \<and> 0 \<notin> set (desc (h c))
      \<and> max_slots (players (h c)) < 2 ^ 16
      \<and> 19 + length (name (h c)) + length (topic (h c)) + length (desc (h c)) < 2 ^ 31)"

text \<open>The parent id on the wire.\<close>

definition wire_parent :: "chan_heap \<Rightarrow> addr \<Rightarrow> 32 word" where
  "wire_parent h c = (case parent (h c) of None \<Rightarrow> 0xFFFFFFFF | Some p \<Rightarrow> chan_id (h p))"

section \<open>Concrete data for the examples\<close>

definition ex_K :: params where
  "ex_K = \<lparr>CHANNEL_FLAG_UNREGISTERED = 1, CHANNEL_FLAG_SUBCHANNELS = 8,
           CHANNEL_FLAG_DEFAULT = 16, GLOBAL_FLAG_REGISTERED = 1,
           ar_full = (\<lambda>a. False)\<rparr>"

definition ex_chan :: "16 word \<Rightarrow> channel" where
  "ex_chan f = \<lparr>chan_id = 0, name = [], topic = [], desc = [], flags = f, codec = 0,
     sort_order = 0, password = replicate 30 0,
     players = \<lparr>slots = [], used_slots = 0, max_slots = 16\<rparr>,
     subchannels = \<lparr>slots = [], used_slots = 0, max_slots = 0\<rparr>,
     parent = None, parent_id = 0,
     pl_privileges = \<lparr>slots = [], used_slots = 0, max_slots = 0\<rparr>,
     in_server = Some 0\<rparr>"

text \<open>Three top channels that may have subchannels, at the addresses 1, 2 and 3.\<close>

definition ex_tree :: chan_heap where
  "ex_tree = (\<lambda>a. (ex_chan 8)\<lparr>chan_id := word_of_nat a\<rparr>)"

text \<open>Channel 2 as a subchannel of channel 1.\<close>

definition ex_sub :: chan_heap where
  "ex_sub = ex_tree(1 := ex_chan 28, 2 := (ex_chan 24)\<lparr>parent := Some 1\<rparr>)"

text \<open>Channel 1 as the default channel with a given number of used slots.\<close>

definition ex_default :: "size_t \<Rightarrow> chan_heap" where
  "ex_default n = ex_tree(1 := (ex_chan 16)\<lparr>players := \<lparr>slots = [], used_slots = n, max_slots = 16\<rparr>\<rparr>)"

text \<open>A state around a store of channels; no player is registered.\<close>

definition ex_state :: "chan_heap \<Rightarrow> state" where
  "ex_state h = \<lparr>chans = h,
     pls = (\<lambda>a. \<lparr>in_chan = None, pl_reg = None, global_flags = 0\<rparr>),
     privs = (\<lambda>a. \<lparr>pcp_ch = None, pcp_reg = PL_CH_PRIV_UNREGISTERED, pl_or_reg = None, pcp_flags = 0\<rparr>),
     srv_conf = (\<lambda>a. Some 0), next_priv = 0, db = []\<rparr>"

text \<open>Channel 1 with two places, both taken.\<close>

definition ex_crowded :: chan_heap where
  "ex_crowded = ex_tree(1 := (ex_chan 0)\<lparr>players := \<lparr>slots = [7, 8], used_slots = 2, max_slots = 2\<rparr>\<rparr>)"


text \<open>The tree after channel 3 has been attached to channel 2.\<close>

definition ex_two_levels :: chan_heap where
  "ex_two_levels = snd (channel_add_subchannel ex_K ex_tree 2 3)"

text \<open>The state after the first call for player 5 and channel 1 in the tree of top channels.\<close>

definition ex_after_call :: state where
  "ex_after_call = (ex_state ex_tree)
     \<lparr>chans := ex_tree(1 := (ex_tree 1)\<lparr>pl_privileges := \<lparr>slots = [0], used_slots = 1, max_slots = 0\<rparr>\<rparr>),
      privs := (privs (ex_state ex_tree))(0 :=
        \<lparr>pcp_ch = Some 1, pcp_reg = PL_CH_PRIV_UNREGISTERED, pl_or_reg = Some 5, pcp_flags = 0\<rparr>),
      next_priv := 1\<rparr>"

text \<open>All allocations succeed.\<close>

definition ex_allocs :: allocs where
  "ex_allocs = \<lparr>name_ok = True, topic_ok = True, desc_ok = True, calloc_ok = True,
                strdup_ok = True\<rparr>"

text \<open>
  Channel 5: flags SUBCHANNELS, codec 1, no parent, sort order 0, 10 users at most, name
  "Lobby", topic "t", description "d"; and the 26 bytes of its encoding.
\<close>

definition ex_lobby :: chan_heap where
  "ex_lobby = ex_tree(5 := (ex_chan 8)\<lparr>chan_id := 5, codec := 1,
     name := [76, 111, 98, 98, 121], topic := [116], desc := [100],
     players := \<lparr>slots = [], used_slots = 0, max_slots = 10\<rparr>\<rparr>)"

definition ex_lobby_bytes :: "byte list" where
  "ex_lobby_bytes = [0, 0, 0, 5, 0, 8, 0, 1, 255, 255, 255, 255, 0, 0, 0, 10,
     76, 111, 98, 98, 121, 0, 116, 0, 100, 0]"

text \<open>A channel as \<^verbatim>\<open>new_channel\<close> makes it, with empty topic and description.\<close>

definition ex_decoded :: "byte list \<Rightarrow> 16 word \<Rightarrow> 16 word \<Rightarrow> size_t \<Rightarrow> channel" where
  "ex_decoded nm fl cd mu = \<lparr>chan_id = 0, name = nm, topic = [], desc = [], flags = fl,
     codec = cd, sort_order = 0, password = replicate 30 0,
     players = \<lparr>slots = [], used_slots = 0, max_slots = mu\<rparr>,
     subchannels = \<lparr>slots = [], used_slots = 0, max_slots = 0\<rparr>,
     parent = None, parent_id = 0,
     pl_privileges = \<lparr>slots = [], used_slots = 0, max_slots = 0\<rparr>,
     in_server = None\<rparr>"

text \<open>A buffer of 22 bytes: a header of zeros and the six letters ABCDEF, without any NUL after them.\<close>

definition ex_unterminated :: "byte list" where
  "ex_unterminated = [0, 0, 0, 0, 0, 0, 0, 0, 0, 0, 0, 0, 0, 0, 0, 0, 65, 66, 67, 68, 69, 70]"




section \<open>Properties of flags and of the tree\<close>

lemmas ex_defs = ex_K_def ex_tree_def ex_chan_def

lemma ar_insert_slots:
  "slots (snd (ar_insert K a x)) = (if ar_full K a then slots a else slots a @ [x])"
  by (simp add: ar_insert_def)

lemma getflags_sub_clear:
  "parent (h ch) = Some p \<Longrightarrow> ch_getflags K h ch AND CHANNEL_FLAG_SUBCHANNELS K = 0"
  by (auto simp add: ch_getflags_def bit_eq_iff bit_simps)






text \<open>
  C8. For a channel with a parent, \<^verbatim>\<open>ch_getflags\<close> returns the stored flags of the
  parent with the bits of SUBCHANNELS and DEFAULT cleared; for a channel without parent
  it returns the stored flags of the channel.
\<close>

theorem ch_getflags_inherit:
  "(parent (h s) = Some p \<longrightarrow>
      ch_getflags K h s =
        (ucast (flags (h p)) AND NOT (CHANNEL_FLAG_SUBCHANNELS K))
          AND NOT (CHANNEL_FLAG_DEFAULT K))
   \<and> (parent (h s) = None \<longrightarrow> ch_getflags K h s = ucast (flags (h s)))"
  by (simp add: ch_getflags_def)

text \<open>A subchannel of a channel with the flags 28 has the effective flags 4.\<close>

theorem ch_getflags_inherit_witness:
  "ch_getflags ex_K ex_sub 2 = 4 \<and> ch_getflags ex_K ex_sub 1 = 28"
  using ch_getflags_inherit [of ex_sub 2 1 ex_K] ch_getflags_inherit [of ex_sub 1 1 ex_K]
  by (simp add: ex_sub_def ex_defs)

text \<open>
  C10. When the channel given as parent has a parent itself, \<^verbatim>\<open>channel_add_subchannel\<close>
  returns 0 and changes nothing: the test reads the effective flags, in which the bit of
  SUBCHANNELS is always cleared for a channel with a parent.
\<close>

theorem add_subchannel_below_subchannel:
  "parent (h ch) \<noteq> None \<Longrightarrow> channel_add_subchannel K h ch subchannel = (0, h)"
  by (auto simp add: channel_add_subchannel_def getflags_sub_clear)

text \<open>Channel 2 is a subchannel of channel 1 and stores the SUBCHANNELS bit itself.\<close>

theorem add_subchannel_below_subchannel_witness:
  "parent (ex_sub 2) \<noteq> None \<and> ucast (flags (ex_sub 2)) AND CHANNEL_FLAG_SUBCHANNELS ex_K \<noteq> 0
   \<and> channel_add_subchannel ex_K ex_sub 2 3 = (0, ex_sub)"
  using add_subchannel_below_subchannel [of ex_sub 2 ex_K 3]
  by (simp add: ex_sub_def ex_defs)





text \<open>
  C3 says that a channel with subchannels never becomes the child of another channel.
  \<^verbatim>\<open>channel_add_subchannel\<close> tests the flags of the parent only. Starting from three top
  channels, attaching 3 to 2 and then 2 to 1 succeeds twice: afterwards channel 2 has the
  parent 1 and still has the subchannel 3, whose parent is 2.
\<close>

theorem add_subchannel_depth_three:
  "channel_add_subchannel ex_K ex_tree 2 3 = (1, ex_two_levels)
   \<and> slots (subchannels (ex_two_levels 2)) = [3] \<and> parent (ex_two_levels 2) = None
   \<and> fst (channel_add_subchannel ex_K ex_two_levels 1 2) = 1
   \<and> parent (snd (channel_add_subchannel ex_K ex_two_levels 1 2) 2) = Some 1
   \<and> slots (subchannels (snd (channel_add_subchannel ex_K ex_two_levels 1 2) 2)) = [3]
   \<and> parent (snd (channel_add_subchannel ex_K ex_two_levels 1 2) 3) = Some 2"
  by (simp add: ex_two_levels_def channel_add_subchannel_def ch_getflags_def ar_insert_def
      Let_def ex_defs)

text \<open>
  C4, as stated, says that the default channel is never full, whatever \<^verbatim>\<open>used_slots\<close>
  is. With \<^verbatim>\<open>used_slots\<close> equal to \<^verbatim>\<open>(size_t) -1\<close> the function answers that the
  channel is full.
\<close>

theorem ch_isfull_default_counterexample:
  "ucast (flags (ex_default (- 1) 1)) AND CHANNEL_FLAG_DEFAULT ex_K \<noteq> 0
   \<and> ch_isfull ex_K (ex_default (- 1)) 1"
  by (simp add: ch_isfull_def ex_default_def ex_defs)

text \<open>
  C4, amended. For a channel whose stored flags include DEFAULT, \<^verbatim>\<open>ch_isfull\<close> answers
  that the channel is full exactly when \<^verbatim>\<open>used_slots\<close> is \<^verbatim>\<open>(size_t) -1\<close>; for every
  other value of \<^verbatim>\<open>used_slots\<close> the default channel is not full.
\<close>

theorem ch_isfull_default:
  "ucast (flags (h ch)) AND CHANNEL_FLAG_DEFAULT K \<noteq> 0 \<Longrightarrow>
   ch_isfull K h ch = (used_slots (players (h ch)) = - 1)"
  by (simp add: ch_isfull_def)

text \<open>The default channel with 1000 players and \<^verbatim>\<open>max_slots\<close> 16 is not full.\<close>

theorem ch_isfull_default_witness:
  "ucast (flags (ex_default 1000 1)) AND CHANNEL_FLAG_DEFAULT ex_K \<noteq> 0
   \<and> \<not> ch_isfull ex_K (ex_default 1000) 1"
  using ch_isfull_default [of "ex_default 1000" 1 ex_K]
  by (simp add: ex_default_def ex_defs)


text \<open>
  What the code does for a channel whose stored flags do not include DEFAULT: at its
  capacity, \<^verbatim>\<open>add_player_to_channel\<close> returns 0 and leaves the whole state unchanged.
\<close>

lemma add_player_full:
  assumes "ucast (flags (chans s chan)) AND CHANNEL_FLAG_DEFAULT K = 0"
    and "used_slots (players (chans s chan)) = max_slots (players (chans s chan))"
  shows "add_player_to_channel K s chan pl = (0, s)"
  using assms by (simp add: add_player_to_channel_def ch_isfull_def)

text \<open>A channel with two places and two players refuses a third player.\<close>

lemma add_player_full_witness:
  "ucast (flags (chans (ex_state ex_crowded) 1)) AND CHANNEL_FLAG_DEFAULT ex_K = 0
   \<and> used_slots (players (chans (ex_state ex_crowded) 1)) = 2
   \<and> max_slots (players (chans (ex_state ex_crowded) 1)) = 2
   \<and> add_player_to_channel ex_K (ex_state ex_crowded) 1 9 = (0, ex_state ex_crowded)"
  using add_player_full [of "ex_state ex_crowded" 1 ex_K 9]
  by (simp add: ex_state_def ex_crowded_def ex_defs)

section \<open>Properties of the privilege lookup\<close>

lemma find_priv_None: "find_priv s pl xs = None \<longleftrightarrow> (\<forall>x\<in>set xs. \<not> priv_matches s pl x)"
  by (induction xs) (auto simp: priv_matches_def)

lemma find_priv_append_new:
  "\<forall>x\<in>set xs. x \<noteq> a \<longrightarrow> \<not> priv_matches s pl x \<Longrightarrow> priv_matches s pl a
   \<Longrightarrow> find_priv s pl (xs @ [a]) = Some a"
  by (induction xs) (auto simp: priv_matches_def)

lemma find_priv_only_new:
  "\<forall>x\<in>set xs. x \<noteq> a \<longrightarrow> \<not> priv_matches s pl x \<Longrightarrow> find_priv s pl xs = Some r \<Longrightarrow> r = a"
  by (induction xs) (auto simp: priv_matches_def split: if_splits)

lemma priv_matches_cong:
  "privs s' x = privs s x \<Longrightarrow> pls s' pl = pls s pl \<Longrightarrow> priv_matches s' pl x = priv_matches s pl x"
  by (simp add: priv_matches_def)

lemma gpcp_found:
  "find_priv s pl (slots (pl_privileges (chans s (top_channel (chans s) ch)))) = Some p
   \<Longrightarrow> get_player_channel_privilege K s pl ch = Inr (p, s)"
  by (simp add: get_player_channel_privilege_def)

lemma gpcp_created:
  assumes "find_priv s pl (slots (pl_privileges (chans s (top_channel (chans s) ch)))) = None"
    and "get_player_channel_privilege K s pl ch = Inr (r, s')"
  shows "r = next_priv s \<and> privs s' = (privs s)(r := created_priv K s pl (top_channel (chans s) ch))
    \<and> pls s' = pls s \<and> next_priv s' = Suc r \<and> srv_conf s' = srv_conf s
    \<and> chans s' = (chans s)(top_channel (chans s) ch := (chans s (top_channel (chans s) ch))
         \<lparr>pl_privileges := snd (ar_insert K (pl_privileges (chans s (top_channel (chans s) ch))) r)\<rparr>)"
  using assms
  by (auto simp add: get_player_channel_privilege_def new_player_channel_privilege_def
      add_player_channel_privilege_def db_add_pl_chan_priv_def created_priv_def Let_def
      split: if_splits option.splits)

lemma gpcp_succeeds:
  "\<not> persist_fails K s pl ch \<Longrightarrow> \<exists>r s'. get_player_channel_privilege K s pl ch = Inr (r, s')"
  by (auto simp add: get_player_channel_privilege_def new_player_channel_privilege_def
      persist_fails_def Let_def split: option.splits)

lemma gpcp_fails:
  "get_player_channel_privilege K s pl ch = Inl e \<Longrightarrow>
     persist_fails K s pl ch \<and> find_priv s pl (owner_privs s ch) = None"
  by (auto simp add: get_player_channel_privilege_def new_player_channel_privilege_def
      persist_fails_def owner_privs_def Let_def split: option.splits if_splits)

lemma created_priv_matches:
  "privs s a = created_priv K s0 pl T \<Longrightarrow> pls s pl = pls s0 pl \<Longrightarrow> priv_matches s pl a"
  by (simp add: priv_matches_def created_priv_def)

lemma top_channel_frame:
  "\<forall>c. parent (h' c) = parent (h c) \<Longrightarrow> top_channel h' ch = top_channel h ch"
  by (simp add: top_channel_def)

lemma gpcp_step:
  assumes call: "get_player_channel_privilege K s pl ch = Inr (r, s')"
  shows "top_channel (chans s') ch = top_channel (chans s) ch
    \<and> pls s' = pls s
    \<and> flags (chans s' (top_channel (chans s) ch)) = flags (chans s (top_channel (chans s) ch))
    \<and> in_server (chans s' (top_channel (chans s) ch)) = in_server (chans s (top_channel (chans s) ch))
    \<and> (find_priv s pl (owner_privs s ch) = Some r \<and> s' = s
       \<or> find_priv s pl (owner_privs s ch) = None \<and> r = next_priv s
          \<and> privs s' = (privs s)(r := created_priv K s pl (top_channel (chans s) ch))
          \<and> owner_privs s' ch = (if ar_full K (pl_privileges (chans s (top_channel (chans s) ch)))
                then owner_privs s ch else owner_privs s ch @ [r]))"
proof (cases "find_priv s pl (owner_privs s ch)")
  case (Some p)
  with call show ?thesis
    by (simp add: owner_privs_def gpcp_found)
next
  case None
  let ?T = "top_channel (chans s) ch"
  from None have n: "find_priv s pl (slots (pl_privileges (chans s ?T))) = None"
    by (simp add: owner_privs_def)
  note c = gpcp_created [OF n call]
  from c have ch': "chans s' = (chans s)(?T := (chans s ?T)
         \<lparr>pl_privileges := snd (ar_insert K (pl_privileges (chans s ?T)) r)\<rparr>)"
    by simp
  have par: "\<forall>c. parent (chans s' c) = parent (chans s c)"
    by (simp add: ch')
  have top: "top_channel (chans s') ch = ?T"
    by (rule top_channel_frame [OF par])
  have own: "owner_privs s' ch = (if ar_full K (pl_privileges (chans s ?T))
                then owner_privs s ch else owner_privs s ch @ [r])"
    by (simp add: owner_privs_def top) (simp add: ch' ar_insert_slots)
  from c None top own show ?thesis
    by (simp add: ch')
qed

lemma persist_fails_frame:
  assumes "top_channel (chans s') ch = top_channel (chans s) ch" "pls s' pl = pls s pl"
    "flags (chans s' (top_channel (chans s) ch)) = flags (chans s (top_channel (chans s) ch))"
    "in_server (chans s' (top_channel (chans s) ch)) = in_server (chans s (top_channel (chans s) ch))"
  shows "persist_fails K s' pl ch = persist_fails K s pl ch"
  using assms by (simp add: persist_fails_def)

lemma gpcp_made_not_fails:
  assumes "find_priv s pl (slots (pl_privileges (chans s (top_channel (chans s) ch)))) = None"
    and "get_player_channel_privilege K s pl ch = Inr (r, s')"
  shows "\<not> persist_fails K s pl ch"
  using assms
  by (auto simp add: get_player_channel_privilege_def new_player_channel_privilege_def
      persist_fails_def Let_def split: if_splits option.splits)

lemma second_call:
  assumes call: "get_player_channel_privilege K s pl ch = Inr (r1, s1)"
  shows "\<exists>r2 s2. get_player_channel_privilege K s1 pl ch = Inr (r2, s2)
           \<and> privs s2 r2 = privs s1 r1
           \<and> (owner_privs s1 ch \<noteq> owner_privs s ch \<or> find_priv s pl (owner_privs s ch) \<noteq> None
                \<longrightarrow> r2 = r1 \<and> s2 = s1)
           \<and> length (owner_privs s2 ch) \<le> Suc (length (owner_privs s ch))"
proof -
  let ?T = "top_channel (chans s) ch"
  note st = gpcp_step [OF call]
  from st have top: "top_channel (chans s1) ch = ?T" and pl: "pls s1 = pls s" by simp_all
  from st consider
      (found) "find_priv s pl (owner_privs s ch) = Some r1" "s1 = s"
    | (made) "find_priv s pl (owner_privs s ch) = None" "r1 = next_priv s"
        "privs s1 = (privs s)(r1 := created_priv K s pl ?T)"
        "owner_privs s1 ch = owner_privs s ch \<or> owner_privs s1 ch = owner_privs s ch @ [r1]"
    by (auto split: if_splits)
  then show ?thesis
  proof cases
    case found
    from call found(2) have c: "get_player_channel_privilege K s1 pl ch = Inr (r1, s1)"
      by simp
    have "length (owner_privs s1 ch) \<le> Suc (length (owner_privs s ch))"
      by (simp add: found(2))
    with c show ?thesis
      by (intro exI [of _ r1] exI [of _ s1]) simp
  next
    case made
    have m: "priv_matches s1 pl r1"
      by (rule created_priv_matches [of _ _ K s _ ?T]) (simp_all add: made pl)
    have old: "\<forall>x\<in>set (owner_privs s ch). x \<noteq> r1 \<longrightarrow> \<not> priv_matches s1 pl x"
    proof (intro ballI impI)
      fix x assume x: "x \<in> set (owner_privs s ch)" "x \<noteq> r1"
      have "priv_matches s1 pl x = priv_matches s pl x"
        by (rule priv_matches_cong) (use x made(3) pl in simp_all)
      with made(1) x(1) show "\<not> priv_matches s1 pl x"
        by (simp add: find_priv_None)
    qed
    from made(4) show ?thesis
    proof
      assume same: "owner_privs s1 ch = owner_privs s ch"
      show ?thesis
      proof (cases "find_priv s1 pl (owner_privs s1 ch)")
        case (Some r)
        with same old have "r = r1" by (auto dest: find_priv_only_new)
        with Some have "get_player_channel_privilege K s1 pl ch = Inr (r1, s1)"
          by (simp add: owner_privs_def gpcp_found)
        with same made(1) show ?thesis
          by (intro exI [of _ r1] exI [of _ s1]) simp
      next
        case None
        from made(1) have "find_priv s pl (slots (pl_privileges (chans s ?T))) = None"
          by (simp add: owner_privs_def)
        then have "\<not> persist_fails K s pl ch"
          using call by (rule gpcp_made_not_fails)
        moreover have "persist_fails K s1 pl ch = persist_fails K s pl ch"
          using st by (intro persist_fails_frame) simp_all
        ultimately obtain r2 s2 where c2: "get_player_channel_privilege K s1 pl ch = Inr (r2, s2)"
          using gpcp_succeeds by blast
        note st2 = gpcp_step [OF c2]
        from st2 None have p2: "privs s2 = (privs s1)(r2 := created_priv K s1 pl (top_channel (chans s1) ch))"
          by simp
        from st2 None have o2: "length (owner_privs s2 ch) \<le> Suc (length (owner_privs s1 ch))"
          by (simp split: if_splits)
        have "privs s2 r2 = created_priv K s pl ?T"
          by (simp add: p2 top created_priv_def pl)
        also have "\<dots> = privs s1 r1"
          by (simp add: made(3))
        finally have eq: "privs s2 r2 = privs s1 r1" .
        have imp: "owner_privs s1 ch \<noteq> owner_privs s ch \<or> find_priv s pl (owner_privs s ch) \<noteq> None
                \<longrightarrow> r2 = r1 \<and> s2 = s1"
          by (simp add: same made(1))
        from o2 have len: "length (owner_privs s2 ch) \<le> Suc (length (owner_privs s ch))"
          by (simp add: same)
        from c2 eq imp len show ?thesis
          by (intro exI [of _ r2] exI [of _ s2]) simp
      qed
    next
      assume ins: "owner_privs s1 ch = owner_privs s ch @ [r1]"
      have "find_priv s1 pl (owner_privs s1 ch) = Some r1"
        unfolding ins by (rule find_priv_append_new [OF old m])
      then have "get_player_channel_privilege K s1 pl ch = Inr (r1, s1)"
        by (simp add: owner_privs_def gpcp_found)
      with ins show ?thesis
        by (intro exI [of _ r1] exI [of _ s1]) simp
    qed
  qed
qed

lemma gpcp_inserted_found:
  assumes call: "get_player_channel_privilege K s pl ch = Inr (r, s')"
    and none: "find_priv s pl (owner_privs s ch) = None"
    and ins: "owner_privs s' ch = owner_privs s ch @ [r]"
  shows "find_priv s' pl (owner_privs s' ch) = Some r"
proof -
  note st = gpcp_step [OF call]
  from st have pl: "pls s' = pls s" by simp
  from st none have pr: "privs s' = (privs s)(r := created_priv K s pl (top_channel (chans s) ch))"
    by simp
  have m: "priv_matches s' pl r"
    by (rule created_priv_matches [of _ _ K s _ "top_channel (chans s) ch"]) (simp_all add: pr pl)
  have old: "\<forall>x\<in>set (owner_privs s ch). x \<noteq> r \<longrightarrow> \<not> priv_matches s' pl x"
  proof (intro ballI impI)
    fix x assume x: "x \<in> set (owner_privs s ch)" "x \<noteq> r"
    have "priv_matches s' pl x = priv_matches s pl x"
      by (rule priv_matches_cong) (use x pr pl in simp_all)
    with none x(1) show "\<not> priv_matches s' pl x"
      by (simp add: find_priv_None)
  qed
  show ?thesis
    unfolding ins by (rule find_priv_append_new [OF old m])
qed

lemma privilege_calls_found:
  assumes "find_priv s pl (owner_privs s ch) = Some p"
  shows "privilege_calls K n s pl ch = Inr s"
proof (induction n)
  case 0
  show ?case by simp
next
  case (Suc n)
  from assms have "get_player_channel_privilege K s pl ch = Inr (p, s)"
    by (simp add: owner_privs_def gpcp_found)
  with Suc show ?case by simp
qed

lemma calls_inv_step:
  assumes inv: "calls_inv s0 pl ch s"
    and ok: "\<not> persist_fails K s0 pl ch"
  shows "\<exists>r s'. get_player_channel_privilege K s pl ch = Inr (r, s') \<and> calls_inv s0 pl ch s'"
proof -
  from inv have fr: "top_channel (chans s) ch = top_channel (chans s0) ch"
    "pls s pl = pls s0 pl"
    "flags (chans s (top_channel (chans s0) ch)) = flags (chans s0 (top_channel (chans s0) ch))"
    "in_server (chans s (top_channel (chans s0) ch)) = in_server (chans s0 (top_channel (chans s0) ch))"
    by (simp_all add: calls_inv_def)
  have "persist_fails K s pl ch = persist_fails K s0 pl ch"
    by (rule persist_fails_frame) (rule fr)+
  with ok obtain r s' where call: "get_player_channel_privilege K s pl ch = Inr (r, s')"
    using gpcp_succeeds by blast
  note st = gpcp_step [OF call]
  have "calls_inv s0 pl ch s'"
  proof (cases "find_priv s pl (owner_privs s ch)")
    case (Some p)
    with st have "s' = s" by simp
    with inv show ?thesis by simp
  next
    case None
    with inv have same: "owner_privs s ch = owner_privs s0 ch"
      by (simp add: calls_inv_def)
    from st None have own: "owner_privs s' ch = owner_privs s ch \<or> owner_privs s' ch = owner_privs s ch @ [r]"
      by (simp split: if_splits)
    then have grow: "owner_privs s' ch = owner_privs s0 ch
         \<or> length (owner_privs s' ch) = Suc (length (owner_privs s0 ch))
           \<and> find_priv s' pl (owner_privs s' ch) \<noteq> None"
    proof
      assume "owner_privs s' ch = owner_privs s ch"
      with same show ?thesis by simp
    next
      assume ins: "owner_privs s' ch = owner_privs s ch @ [r]"
      have "find_priv s' pl (owner_privs s' ch) = Some r"
        by (rule gpcp_inserted_found [OF call None ins])
      with ins same show ?thesis by simp
    qed
    from st fr have "top_channel (chans s') ch = top_channel (chans s0) ch"
      "pls s' pl = pls s0 pl"
      "flags (chans s' (top_channel (chans s0) ch)) = flags (chans s0 (top_channel (chans s0) ch))"
      "in_server (chans s' (top_channel (chans s0) ch)) = in_server (chans s0 (top_channel (chans s0) ch))"
      by simp_all
    with grow show ?thesis
      by (simp add: calls_inv_def)
  qed
  with call show ?thesis by blast
qed

lemma privilege_calls_inv:
  assumes ok: "\<not> persist_fails K s0 pl ch"
  shows "\<exists>s'. privilege_calls K n s0 pl ch = Inr s' \<and> calls_inv s0 pl ch s'"
proof (induction n)
  case 0
  show ?case by (simp add: calls_inv_def)
next
  case (Suc n)
  then obtain s where n: "privilege_calls K n s0 pl ch = Inr s" and inv: "calls_inv s0 pl ch s"
    by blast
  from calls_inv_step [OF inv ok] obtain r s'
    where "get_player_channel_privilege K s pl ch = Inr (r, s')" "calls_inv s0 pl ch s'"
    by blast
  with n show ?case by simp
qed

lemma privilege_calls_bounded:
  assumes call: "get_player_channel_privilege K s pl ch = Inr (r1, s1)"
  shows "\<exists>s'. privilege_calls K n s pl ch = Inr s'
     \<and> top_channel (chans s') ch = top_channel (chans s) ch
     \<and> length (owner_privs s' ch) \<le> Suc (length (owner_privs s ch))"
proof (cases "find_priv s pl (owner_privs s ch)")
  case (Some p)
  then have "privilege_calls K n s pl ch = Inr s"
    by (rule privilege_calls_found)
  then show ?thesis by simp
next
  case None
  then have "find_priv s pl (slots (pl_privileges (chans s (top_channel (chans s) ch)))) = None"
    by (simp add: owner_privs_def)
  then have "\<not> persist_fails K s pl ch"
    using call by (rule gpcp_made_not_fails)
  then obtain s' where c: "privilege_calls K n s pl ch = Inr s'" and inv: "calls_inv s pl ch s'"
    using privilege_calls_inv by blast
  from inv have "top_channel (chans s') ch = top_channel (chans s) ch"
    and "length (owner_privs s' ch) \<le> Suc (length (owner_privs s ch))"
    by (auto simp add: calls_inv_def)
  with c show ?thesis by simp
qed

text \<open>
  C9. When a call of \<^verbatim>\<open>get_player_channel_privilege\<close> for a player and a channel has
  returned, the next call for the same pair returns as well, and the record it returns has
  the same contents (channel, tag, identity and level). It is the very same record, and
  the state is unchanged, whenever the first call found a record or the container took the
  new one. After any number of calls the privileges of the top channel are at most one
  more than before the first call.
\<close>

theorem privilege_idempotent:
  assumes call: "get_player_channel_privilege K s pl ch = Inr (r1, s1)"
  shows "(\<exists>r2 s2. get_player_channel_privilege K s1 pl ch = Inr (r2, s2)
            \<and> privs s2 r2 = privs s1 r1
            \<and> (find_priv s pl (slots (pl_privileges (chans s (top_channel (chans s) ch)))) \<noteq> None
                 \<or> \<not> ar_full K (pl_privileges (chans s (top_channel (chans s) ch)))
                \<longrightarrow> r2 = r1 \<and> s2 = s1))
     \<and> (\<exists>s'. privilege_calls K n s pl ch = Inr s'
            \<and> length (slots (pl_privileges (chans s' (top_channel (chans s) ch))))
                \<le> Suc (length (slots (pl_privileges (chans s (top_channel (chans s) ch))))))"
proof
  from second_call [OF call] obtain r2 s2
    where c2: "get_player_channel_privilege K s1 pl ch = Inr (r2, s2)"
      and eq: "privs s2 r2 = privs s1 r1"
      and same: "owner_privs s1 ch \<noteq> owner_privs s ch \<or> find_priv s pl (owner_privs s ch) \<noteq> None
                \<longrightarrow> r2 = r1 \<and> s2 = s1"
    by blast
  have "r2 = r1 \<and> s2 = s1"
    if h: "find_priv s pl (slots (pl_privileges (chans s (top_channel (chans s) ch)))) \<noteq> None
                 \<or> \<not> ar_full K (pl_privileges (chans s (top_channel (chans s) ch)))"
  proof (cases "find_priv s pl (owner_privs s ch)")
    case (Some p)
    with same show ?thesis by simp
  next
    case None
    with h have "\<not> ar_full K (pl_privileges (chans s (top_channel (chans s) ch)))"
      by (simp add: owner_privs_def)
    with gpcp_step [OF call] None have "owner_privs s1 ch = owner_privs s ch @ [r1]"
      by simp
    with same show ?thesis by simp
  qed
  with c2 eq show "\<exists>r2 s2. get_player_channel_privilege K s1 pl ch = Inr (r2, s2)
            \<and> privs s2 r2 = privs s1 r1
            \<and> (find_priv s pl (slots (pl_privileges (chans s (top_channel (chans s) ch)))) \<noteq> None
                 \<or> \<not> ar_full K (pl_privileges (chans s (top_channel (chans s) ch)))
                \<longrightarrow> r2 = r1 \<and> s2 = s1)"
    by blast
next
  from privilege_calls_bounded [OF call, of n] obtain s'
    where c: "privilege_calls K n s pl ch = Inr s'"
      and t: "top_channel (chans s') ch = top_channel (chans s) ch"
      and l: "length (owner_privs s' ch) \<le> Suc (length (owner_privs s ch))"
    by blast
  from t l have "length (slots (pl_privileges (chans s' (top_channel (chans s) ch))))
                \<le> Suc (length (slots (pl_privileges (chans s (top_channel (chans s) ch)))))"
    by (simp add: owner_privs_def)
  with c show "\<exists>s'. privilege_calls K n s pl ch = Inr s'
            \<and> length (slots (pl_privileges (chans s' (top_channel (chans s) ch))))
                \<le> Suc (length (slots (pl_privileges (chans s (top_channel (chans s) ch)))))"
    by blast
qed

lemma ex_first_call:
  "get_player_channel_privilege ex_K (ex_state ex_tree) 5 1 = Inr (0, ex_after_call)"
  by (simp add: get_player_channel_privilege_def top_channel_def new_player_channel_privilege_def
      add_player_channel_privilege_def ar_insert_def ex_after_call_def ex_state_def ex_defs Let_def)

text \<open>
  Player 5, not registered, asks for channel 1 of the tree of top channels: the first call
  creates the record 0, the second finds it, and three calls leave one record.
\<close>

theorem privilege_idempotent_witness:
  "get_player_channel_privilege ex_K (ex_state ex_tree) 5 1 = Inr (0, ex_after_call)
   \<and> get_player_channel_privilege ex_K ex_after_call 5 1 = Inr (0, ex_after_call)
   \<and> (\<exists>s'. privilege_calls ex_K 3 (ex_state ex_tree) 5 1 = Inr s'
          \<and> length (slots (pl_privileges (chans s' 1))) \<le> 1)"
proof -
  have full: "\<not> ar_full ex_K (pl_privileges (chans (ex_state ex_tree) (top_channel (chans (ex_state ex_tree)) 1)))"
    by (simp add: ex_K_def)
  have top: "top_channel (chans (ex_state ex_tree)) 1 = 1"
    by (simp add: top_channel_def ex_state_def ex_defs)
  have len: "length (slots (pl_privileges (chans (ex_state ex_tree) 1))) = 0"
    by (simp add: ex_state_def ex_defs)
  from privilege_idempotent [OF ex_first_call, of 3] full top len ex_first_call show ?thesis
    by auto
qed

section \<open>Properties of the codec\<close>

lemma ru16_wu16: "ru16 (wu16 v @ r) = Some (v, r)"
  unfolding ru16_def wu16_def
  apply simp
  apply (rule bit_word_eqI)
  apply (auto simp: bit_simps)
  done

lemma ru32_wu32: "ru32 (wu32 v @ r) = Some (v, r)"
proof -
  have "push_bit 24 (ucast (ucast (drop_bit 24 v) :: byte)) OR push_bit 16 (ucast (ucast (drop_bit 16 v) :: byte))
          OR push_bit 8 (ucast (ucast (drop_bit 8 v) :: byte)) OR ucast (ucast v :: byte) = v"
  proof (rule bit_word_eqI)
    fix n assume "n < LENGTH(32)"
    then have n: "n < 32" by simp
    consider "n < 8" | "8 \<le> n" "n < 16" | "16 \<le> n" "n < 24" | "24 \<le> n" by linarith
    then show "bit (push_bit 24 (ucast (ucast (drop_bit 24 v) :: byte)) OR push_bit 16 (ucast (ucast (drop_bit 16 v) :: byte))
          OR push_bit 8 (ucast (ucast (drop_bit 8 v) :: byte)) OR (ucast (ucast v :: byte) :: 32 word)) n = bit v n"
      using n by cases (auto simp: bit_simps)
  qed
  then show ?thesis
    by (simp add: ru32_def wu32_def)
qed

lemma size_to_int_small: "n < 2 ^ 31 \<Longrightarrow> size_to_int n = int n"
  unfolding size_to_int_def
  by (simp add: signed_of_nat signed_take_bit_int_eq_self)



lemma cstr_no_nul: "0 \<notin> set (cstr s)"
  by (induction s) (auto simp: cstr_def)

lemma cstr_idem: "0 \<notin> set s \<Longrightarrow> cstr s = s"
  by (induction s) (auto simp: cstr_def)

lemma strn_copy_terminated:
  "0 \<notin> set xs \<Longrightarrow> length xs \<le> n \<Longrightarrow> strn_copy (xs @ 0 # r) n = Inr xs"
  by (induction xs arbitrary: n) auto

lemma strn_copy_bounded:
  "n \<le> length bs \<Longrightarrow> strn_copy bs n = Inr (cstr (take n bs))"
proof (induction bs arbitrary: n)
  case Nil
  then show ?case by (simp add: cstr_def)
next
  case (Cons b bs)
  show ?case
  proof (cases n)
    case 0
    then show ?thesis by (simp add: cstr_def)
  next
    case (Suc m)
    with Cons.prems have "m \<le> length bs" by simp
    from Cons.IH [OF this] Suc show ?thesis by (simp add: cstr_def)
  qed
qed

lemma length_wu16 [simp]: "length (wu16 v) = 2"
  by (simp add: wu16_def)

lemma length_wu32 [simp]: "length (wu32 v) = 4"
  by (simp add: wu32_def)

lemma length_strcpy [simp]: "length (strcpy s) = strlen s + 1"
  by (simp add: strcpy_def strlen_def)

lemma length_encoded: "length (encoded h ch) = encoded_length h ch"
  by (simp add: encoded_def encoded_length_def split: option.split)

lemma channel_to_data_size_eq: "channel_to_data_size h ch = size_to_int (encoded_length h ch)"
  by (simp add: channel_to_data_size_def encoded_length_def add.assoc)

lemma channel_to_data_eq:
  "channel_to_data h ch =
     (if int (encoded_length h ch) = channel_to_data_size h ch
      then Inr (encoded h ch, channel_to_data_size h ch) else Inl AssertFailed)"
  unfolding channel_to_data_def Let_def encoded_def [symmetric] length_encoded
  by (simp add: channel_to_data_size_def)





lemma drop_wu32 [simp]: "drop 4 (wu32 v @ r) = r"
  by (simp add: wu32_def)

lemma strlen_plain: "0 \<notin> set s \<Longrightarrow> strlen s = length s"
  by (simp add: strlen_def cstr_idem)

lemma decode_strings:
  assumes hd: "ru16 (drop 4 data) = Some (fl, r1)" "ru16 r1 = Some (cd, r2)"
      "ru32 r2 = Some (pid, r3)" "ru16 r3 = Some (so, r4)" "ru16 r4 = Some (mu, r5)"
    and sA: "strndup (name_ok al) (drop 16 data) (to_size_t (len - 16 - 3)) = Inr (Some A)"
    and sB: "strndup (topic_ok al) (drop (16 + length A + 1) data)
              (to_size_t (len - int (16 + length A + 1) - 2)) = Inr (Some B)"
    and sC: "strndup (desc_ok al) (drop (16 + length A + 1 + length B + 1) data)
              (to_size_t (len - int (16 + length A + 1 + length B + 1) - 1)) = Inr (Some C)"
    and z: "strlen A = length A" "strlen B = length B" "strlen C = length C"
    and nc: "new_channel al A B C fl cd so mu = Some c"
  shows "channel_from_data al data len dst
         = Inr (Some (c\<lparr>parent_id := (if pid = 0xFFFFFFFF then parent_id c else pid)\<rparr>),
                16 + length A + 1 + length B + 1 + length C + 1)"
  unfolding channel_from_data_def
  apply (simp only: hd option.case prod.case)
  apply (simp only: bind_e_def sA sum.case strlen_ptr_def option.case z Let_def sB sC)
  apply (simp add: nc)
  done

lemma decode_layout:
  assumes al: "all_allocated al"
    and z: "0 \<notin> set A" "0 \<notin> set B" "0 \<notin> set C"
    and len: "len = int (19 + length A + length B + length C)"
    and small: "19 + length A + length B + length C < 2 ^ 31"
    and data: "data = wu32 i @ wu16 fl @ wu16 cd @ wu32 pid @ wu16 so @ wu16 mu
              @ (A @ [0]) @ (B @ [0]) @ (C @ [0])"
  shows "channel_from_data al data len dst
         = Inr (Some ((the (new_channel al A B C fl cd so mu))
                  \<lparr>parent_id := (if pid = 0xFFFFFFFF then 0 else pid)\<rparr>),
                19 + length A + length B + length C)"
proof -
  have hd: "ru16 (drop 4 data) = Some (fl, wu16 cd @ wu32 pid @ wu16 so @ wu16 mu
              @ (A @ [0]) @ (B @ [0]) @ (C @ [0]))"
    "ru16 (wu16 cd @ wu32 pid @ wu16 so @ wu16 mu @ (A @ [0]) @ (B @ [0]) @ (C @ [0]))
       = Some (cd, wu32 pid @ wu16 so @ wu16 mu @ (A @ [0]) @ (B @ [0]) @ (C @ [0]))"
    "ru32 (wu32 pid @ wu16 so @ wu16 mu @ (A @ [0]) @ (B @ [0]) @ (C @ [0]))
       = Some (pid, wu16 so @ wu16 mu @ (A @ [0]) @ (B @ [0]) @ (C @ [0]))"
    "ru16 (wu16 so @ wu16 mu @ (A @ [0]) @ (B @ [0]) @ (C @ [0]))
       = Some (so, wu16 mu @ (A @ [0]) @ (B @ [0]) @ (C @ [0]))"
    "ru16 (wu16 mu @ (A @ [0]) @ (B @ [0]) @ (C @ [0]))
       = Some (mu, (A @ [0]) @ (B @ [0]) @ (C @ [0]))"
    by (simp_all only: data drop_wu32 ru16_wu16 ru32_wu32)
  have d16: "drop 16 data = A @ 0 # B @ 0 # C @ [0]"
    by (simp add: data)
  have dB: "drop (16 + length A + 1) data = B @ 0 # C @ [0]"
    by (simp add: data)
  have dC: "drop (16 + length A + 1 + length B + 1) data = C @ [0]"
    by (simp add: data)
  have n1: "to_size_t (len - 16 - 3) = length A + length B + length C"
    using small by (simp add: to_size_t_def len)
  have n2: "to_size_t (len - int (16 + length A + 1) - 2) = length B + length C"
    using small by (simp add: to_size_t_def len)
  have n3: "to_size_t (len - int (16 + length A + 1 + length B + 1) - 1) = length C"
    using small by (simp add: to_size_t_def len)
  have sA: "strndup (name_ok al) (drop 16 data) (to_size_t (len - 16 - 3)) = Inr (Some A)"
    unfolding d16 n1 using al z by (simp add: strndup_def strn_copy_terminated all_allocated_def)
  have sB: "strndup (topic_ok al) (drop (16 + length A + 1) data)
              (to_size_t (len - int (16 + length A + 1) - 2)) = Inr (Some B)"
    unfolding dB n2 using al z by (simp add: strndup_def strn_copy_terminated all_allocated_def)
  have sC: "strndup (desc_ok al) (drop (16 + length A + 1 + length B + 1) data)
              (to_size_t (len - int (16 + length A + 1 + length B + 1) - 1)) = Inr (Some C)"
    unfolding dC n3 using al z by (simp add: strndup_def strn_copy_terminated all_allocated_def)
  obtain c where nc: "new_channel al A B C fl cd so mu = Some c" and pc: "parent_id c = 0"
    using al by (simp add: new_channel_def all_allocated_def)
  note sl = strlen_plain [OF z(1)] strlen_plain [OF z(2)] strlen_plain [OF z(3)]
  from decode_strings [OF hd sA sB sC sl nc, of dst] show ?thesis
    by (simp add: nc pc)
qed

lemma ucast16_back:
  assumes "m < 2 ^ 16"
  shows "ucast (ucast m :: 16 word) = (m :: 64 word)"
proof (rule bit_word_eqI)
  fix n
  from assms have e: "m AND mask 16 = m" by (rule less_mask_eq)
  have "bit m n = bit (m AND mask 16) n" by (simp only: e)
  then show "bit (ucast (ucast m :: 16 word) :: 64 word) n = bit m n"
    by (auto simp add: bit_simps)
qed

lemma encoded_valid:
  assumes "valid_channel h c"
  shows "encoded h c = wu32 (chan_id (h c)) @ wu16 (flags (h c)) @ wu16 (codec (h c))
           @ wu32 (wire_parent h c) @ wu16 (sort_order (h c))
           @ wu16 (ucast (max_slots (players (h c))))
           @ (name (h c) @ [0]) @ (topic (h c) @ [0]) @ (desc (h c) @ [0])"
    and "encoded_length h c = 19 + length (name (h c)) + length (topic (h c)) + length (desc (h c))"
  using assms
  by (simp_all add: encoded_def encoded_length_def valid_channel_def strcpy_def cstr_idem
      strlen_plain wire_parent_def split: option.split)

text \<open>
  C1, amended. For a valid channel and successful allocations, decoding the encoding with
  \<open>len\<close> the encoded size gives a channel with the same flags, codec, sort order,
  capacity, name, topic and description, and consumes exactly the encoded size. The id
  is not decoded and stays 0. The parent pointer stays \<^verbatim>\<open>NULL\<close>; \<^verbatim>\<open>parent_id\<close> is
  the id of the parent when there is one and its id is not 0xFFFFFFFF, and stays 0
  otherwise.
\<close>

theorem round_trip:
  assumes valid: "valid_channel h c" and al: "all_allocated al"
  shows "\<exists>bs d. channel_to_data h c = Inr (bs, channel_to_data_size h c)
     \<and> channel_from_data al bs (channel_to_data_size h c) dst
         = Inr (Some d, nat (channel_to_data_size h c))
     \<and> flags d = flags (h c) \<and> codec d = codec (h c) \<and> sort_order d = sort_order (h c)
     \<and> max_slots (players d) = max_slots (players (h c))
     \<and> name d = name (h c) \<and> topic d = topic (h c) \<and> desc d = desc (h c)
     \<and> chan_id d = 0 \<and> parent d = None
     \<and> parent_id d =
          (case parent (h c) of
             None \<Rightarrow> 0
           | Some p \<Rightarrow> if chan_id (h p) = 0xFFFFFFFF then 0 else chan_id (h p))"
proof -
  let ?n = "19 + length (name (h c)) + length (topic (h c)) + length (desc (h c))"
  let ?d = "(the (new_channel al (name (h c)) (topic (h c)) (desc (h c)) (flags (h c))
               (codec (h c)) (sort_order (h c)) (ucast (max_slots (players (h c))))))
             \<lparr>parent_id := (if wire_parent h c = 0xFFFFFFFF then 0 else wire_parent h c)\<rparr>"
  from valid have z: "0 \<notin> set (name (h c))" "0 \<notin> set (topic (h c))" "0 \<notin> set (desc (h c))"
    and small: "?n < 2 ^ 31" and ms: "max_slots (players (h c)) < 2 ^ 16"
    by (simp_all add: valid_channel_def)
  note enc = encoded_valid [OF valid]
  from small have size: "channel_to_data_size h c = int ?n"
    by (simp add: channel_to_data_size_eq enc(2) size_to_int_small)
  then have enc_ok: "channel_to_data h c = Inr (encoded h c, channel_to_data_size h c)"
    by (simp add: channel_to_data_eq enc(2))
  have "channel_from_data al (encoded h c) (channel_to_data_size h c) dst = Inr (Some ?d, ?n)"
    by (rule decode_layout [OF al z size small enc(1)])
  then have dec_ok: "channel_from_data al (encoded h c) (channel_to_data_size h c) dst
      = Inr (Some ?d, nat (channel_to_data_size h c))"
    by (simp add: size)
  have nc: "new_channel al (name (h c)) (topic (h c)) (desc (h c)) (flags (h c))
               (codec (h c)) (sort_order (h c)) (ucast (max_slots (players (h c)))) \<noteq> None"
    using al by (simp add: new_channel_def all_allocated_def)
  have fields: "flags ?d = flags (h c)" "codec ?d = codec (h c)" "sort_order ?d = sort_order (h c)"
    "max_slots (players ?d) = max_slots (players (h c))"
    "name ?d = name (h c)" "topic ?d = topic (h c)" "desc ?d = desc (h c)"
    "chan_id ?d = 0" "parent ?d = None"
    using al z ms
    by (simp_all add: new_channel_def all_allocated_def cstr_idem ucast16_back)
  have pid: "parent_id ?d =
          (case parent (h c) of
             None \<Rightarrow> 0
           | Some p \<Rightarrow> if chan_id (h p) = 0xFFFFFFFF then 0 else chan_id (h p))"
    by (simp add: wire_parent_def split: option.split)
  from enc_ok dec_ok fields pid show ?thesis
    by blast
qed

lemma ru16_Some: "2 \<le> length bs \<Longrightarrow> \<exists>v. ru16 bs = Some (v, drop 2 bs)"
  by (cases bs; cases "tl bs") (auto simp add: ru16_def)

lemma ru32_Some: "4 \<le> length bs \<Longrightarrow> \<exists>v. ru32 bs = Some (v, drop 4 bs)"
  by (cases bs; cases "tl bs"; cases "tl (tl bs)"; cases "tl (tl (tl bs))")
    (auto simp add: ru32_def)

lemma header_read:
  assumes "16 \<le> length data"
  shows "\<exists>fl cd pid so mu r1 r2 r3 r4 r5.
     ru16 (drop 4 data) = Some (fl, r1) \<and> ru16 r1 = Some (cd, r2) \<and> ru32 r2 = Some (pid, r3)
     \<and> ru16 r3 = Some (so, r4) \<and> ru16 r4 = Some (mu, r5)"
proof -
  have "2 \<le> length (drop 4 data)" using assms by simp
  from ru16_Some [OF this] obtain fl where 1: "ru16 (drop 4 data) = Some (fl, drop 2 (drop 4 data))"
    by blast
  have "2 \<le> length (drop 2 (drop 4 data))" using assms by simp
  from ru16_Some [OF this] obtain cd
    where 2: "ru16 (drop 2 (drop 4 data)) = Some (cd, drop 2 (drop 2 (drop 4 data)))"
    by blast
  have "4 \<le> length (drop 2 (drop 2 (drop 4 data)))" using assms by simp
  from ru32_Some [OF this] obtain pid
    where 3: "ru32 (drop 2 (drop 2 (drop 4 data)))
      = Some (pid, drop 4 (drop 2 (drop 2 (drop 4 data))))"
    by blast
  have "2 \<le> length (drop 4 (drop 2 (drop 2 (drop 4 data))))" using assms by simp
  from ru16_Some [OF this] obtain so
    where 4: "ru16 (drop 4 (drop 2 (drop 2 (drop 4 data))))
      = Some (so, drop 2 (drop 4 (drop 2 (drop 2 (drop 4 data)))))"
    by blast
  have "2 \<le> length (drop 2 (drop 4 (drop 2 (drop 2 (drop 4 data)))))" using assms by simp
  from ru16_Some [OF this] obtain mu
    where 5: "ru16 (drop 2 (drop 4 (drop 2 (drop 2 (drop 4 data)))))
      = Some (mu, drop 2 (drop 2 (drop 4 (drop 2 (drop 2 (drop 4 data))))))"
    by blast
  from 1 2 3 4 5 show ?thesis by blast
qed

lemma length_cstr_take: "length (cstr (take n bs)) \<le> n"
proof -
  have "length (cstr (take n bs)) \<le> length (take n bs)"
    unfolding cstr_def by (rule length_takeWhile_le)
  then show ?thesis by simp
qed

lemma strndup_bounded:
  "ok \<Longrightarrow> n \<le> length bs \<Longrightarrow> strndup ok bs n = Inr (Some (cstr (take n bs)))"
  by (simp add: strndup_def strn_copy_bounded)

text \<open>
  C5, amended. \<^verbatim>\<open>channel_from_data\<close> does not test whether the strings are
  terminated. When the allocations succeed and the buffer holds at least \<open>len\<close> bytes,
  \<open>len\<close> being an \<^verbatim>\<open>int\<close> of at least 19, it always produces a channel: each string is
  cut at its first NUL or at the bound given to \<^verbatim>\<open>strndup\<close>, and not more than \<open>len\<close>
  bytes are consumed.
\<close>

theorem decode_never_rejects:
  assumes al: "all_allocated al"
    and lo: "19 \<le> len" and hi: "len \<le> int (length data)" and int_range: "len < 2 ^ 31"
  shows "\<exists>d n. channel_from_data al data len dst = Inr (Some d, n)
     \<and> name d = cstr (take (nat len - 19) (drop 16 data))
     \<and> topic d = cstr (take (nat len - (16 + length (name d) + 1) - 2)
                      (drop (16 + length (name d) + 1) data))
     \<and> desc d = cstr (take (nat len - (16 + length (name d) + 1 + length (topic d) + 1) - 1)
                      (drop (16 + length (name d) + 1 + length (topic d) + 1) data))
     \<and> n = 16 + length (name d) + 1 + length (topic d) + 1 + length (desc d) + 1
     \<and> n \<le> nat len"
proof -
  define L where "L = nat len"
  have len: "len = int L" and L19: "19 \<le> L" and Ld: "L \<le> length data" and Ls: "L < 2 ^ 31"
    using lo hi int_range by (simp_all add: L_def)
  define A where "A = cstr (take (L - 19) (drop 16 data))"
  define B where "B = cstr (take (L - (16 + length A + 1) - 2) (drop (16 + length A + 1) data))"
  define C where "C = cstr (take (L - (16 + length A + 1 + length B + 1) - 1)
                      (drop (16 + length A + 1 + length B + 1) data))"
  have lA: "length A \<le> L - 19" unfolding A_def by (rule length_cstr_take)
  have lB: "length B \<le> L - (16 + length A + 1) - 2" unfolding B_def by (rule length_cstr_take)
  have lC: "length C \<le> L - (16 + length A + 1 + length B + 1) - 1"
    unfolding C_def by (rule length_cstr_take)
  have big: "(2::int) ^ 31 \<le> 2 ^ 64" by simp
  have n1: "to_size_t (len - 16 - 3) = L - 19"
    using L19 Ls by (simp add: to_size_t_def len)
  have n2: "to_size_t (len - int (16 + length A + 1) - 2) = L - (16 + length A + 1) - 2"
    using L19 Ls lA by (simp add: to_size_t_def len)
  have n3: "to_size_t (len - int (16 + length A + 1 + length B + 1) - 1)
      = L - (16 + length A + 1 + length B + 1) - 1"
    using L19 Ls lA lB by (simp add: to_size_t_def len)
  from al have ok: "name_ok al" "topic_ok al" "desc_ok al"
    by (simp_all add: all_allocated_def)
  have sA: "strndup (name_ok al) (drop 16 data) (to_size_t (len - 16 - 3)) = Inr (Some A)"
    unfolding n1 A_def using Ld by (intro strndup_bounded ok) simp
  have sB: "strndup (topic_ok al) (drop (16 + length A + 1) data)
              (to_size_t (len - int (16 + length A + 1) - 2)) = Inr (Some B)"
    unfolding n2 B_def using Ld by (intro strndup_bounded ok) simp
  have sC: "strndup (desc_ok al) (drop (16 + length A + 1 + length B + 1) data)
              (to_size_t (len - int (16 + length A + 1 + length B + 1) - 1)) = Inr (Some C)"
    unfolding n3 C_def using Ld by (intro strndup_bounded ok) simp
  have z: "0 \<notin> set A" "0 \<notin> set B" "0 \<notin> set C"
    by (simp_all add: A_def B_def C_def cstr_no_nul)
  note sl = strlen_plain [OF z(1)] strlen_plain [OF z(2)] strlen_plain [OF z(3)]
  from L19 Ld have "16 \<le> length data" by simp
  from header_read [OF this] obtain fl cd pid so mu r1 r2 r3 r4 r5
    where hd: "ru16 (drop 4 data) = Some (fl, r1)" "ru16 r1 = Some (cd, r2)"
      "ru32 r2 = Some (pid, r3)" "ru16 r3 = Some (so, r4)" "ru16 r4 = Some (mu, r5)"
    by blast
  obtain c where nc: "new_channel al A B C fl cd so mu = Some c"
    and nm: "name c = A" "topic c = B" "desc c = C"
    using al z by (simp add: new_channel_def all_allocated_def cstr_idem)
  let ?d = "c\<lparr>parent_id := (if pid = 0xFFFFFFFF then parent_id c else pid)\<rparr>"
  let ?n = "16 + length A + 1 + length B + 1 + length C + 1"
  have dec: "channel_from_data al data len dst = Inr (Some ?d, ?n)"
    by (rule decode_strings [OF hd sA sB sC sl nc])
  have fields: "name ?d = A" "topic ?d = B" "desc ?d = C"
    by (simp_all add: nm)
  have bound: "?n \<le> L"
    using lA lB lC L19 by arith
  have 1: "name ?d = cstr (take (nat len - 19) (drop 16 data))"
    by (simp only: fields A_def L_def)
  have 2: "topic ?d = cstr (take (nat len - (16 + length (name ?d) + 1) - 2)
                      (drop (16 + length (name ?d) + 1) data))"
    by (simp only: fields) (simp only: B_def L_def)
  have 3: "desc ?d = cstr (take (nat len - (16 + length (name ?d) + 1 + length (topic ?d) + 1) - 1)
                      (drop (16 + length (name ?d) + 1 + length (topic ?d) + 1) data))"
    by (simp only: fields) (simp only: C_def L_def)
  have 4: "?n = 16 + length (name ?d) + 1 + length (topic ?d) + 1 + length (desc ?d) + 1"
    by (simp only: fields)
  have 5: "?n \<le> nat len"
    using bound by (simp only: L_def)
  show ?thesis
    by (intro exI [of _ ?d] exI [of _ ?n] conjI dec 1 2 3 4 5)
qed

lemmas codec_defs = channel_from_data_def ru16_def ru32_def strndup_def strlen_ptr_def bind_e_def
  to_size_t_def new_channel_def ar_new_def cstr_def strlen_def Let_def

lemma ex_lobby_encoded: "channel_to_data ex_lobby 5 = Inr (ex_lobby_bytes, 26)"
  by (simp add: channel_to_data_def ex_lobby_def ex_lobby_bytes_def ex_chan_def wu16_def wu32_def
      strcpy_def strlen_def cstr_def size_to_int_def Let_def)

lemma ex_lobby_size: "channel_to_data_size ex_lobby 5 = 26"
  by (simp add: channel_to_data_size_def ex_lobby_def ex_chan_def strlen_def cstr_def
      size_to_int_def)

lemma ex_lobby_valid: "valid_channel ex_lobby 5"
  by (simp add: valid_channel_def ex_lobby_def ex_chan_def)

lemma ex_allocs_all: "all_allocated ex_allocs"
  by (simp add: all_allocated_def ex_allocs_def)

text \<open>
  C1, as stated, says that every field but \<^verbatim>\<open>parent\<close> comes back. Decoding skips the
  first four bytes: the channel with id 5 comes back with id 0.
\<close>

theorem round_trip_id_counterexample:
  "valid_channel ex_lobby 5
   \<and> channel_to_data ex_lobby 5 = Inr (ex_lobby_bytes, 26)
   \<and> channel_from_data ex_allocs ex_lobby_bytes 26 None
       = Inr (Some ((ex_decoded [76, 111, 98, 98, 121] 8 1 10)\<lparr>topic := [116], desc := [100]\<rparr>), 26)
   \<and> chan_id (ex_lobby 5) = 5
   \<and> chan_id ((ex_decoded [76, 111, 98, 98, 121] 8 1 10)\<lparr>topic := [116], desc := [100]\<rparr>) = 0"
  by (simp add: ex_lobby_valid ex_lobby_encoded)
     (simp add: codec_defs ex_lobby_bytes_def ex_allocs_def ex_decoded_def ex_lobby_def ex_chan_def)

text \<open>The channel "Lobby" comes back with all its encoded fields but the id.\<close>

theorem round_trip_witness:
  "valid_channel ex_lobby 5 \<and> all_allocated ex_allocs
   \<and> (\<exists>d. channel_from_data ex_allocs ex_lobby_bytes 26 None = Inr (Some d, 26)
          \<and> flags d = 8 \<and> codec d = 1 \<and> sort_order d = 0 \<and> max_slots (players d) = 10
          \<and> name d = [76, 111, 98, 98, 121] \<and> topic d = [116] \<and> desc d = [100]
          \<and> chan_id d = 0 \<and> parent d = None \<and> parent_id d = 0)"
  using round_trip [OF ex_lobby_valid ex_allocs_all, of None]
  by (simp add: ex_lobby_valid ex_allocs_all ex_lobby_encoded ex_lobby_size)
     (simp add: ex_lobby_def ex_chan_def)


text \<open>
  C5, as stated, says that decoding fails when a string is not terminated within the
  declared length. For the 22 bytes without terminator, declared as 22 bytes,
  \<^verbatim>\<open>channel_from_data\<close> returns 22 and produces a channel named ABC with empty topic
  and description.
\<close>

theorem decode_unterminated_counterexample:
  "0 \<notin> set (drop 16 ex_unterminated) \<and> length ex_unterminated = 22
   \<and> channel_from_data ex_allocs ex_unterminated 22 None
       = Inr (Some (ex_decoded [65, 66, 67] 0 0 0), 22)"
  by (simp add: codec_defs ex_unterminated_def ex_allocs_def ex_decoded_def)

text \<open>The unterminated buffer of 22 bytes is decoded.\<close>

theorem decode_never_rejects_witness:
  "all_allocated ex_allocs \<and> (19::int) \<le> 22 \<and> 22 \<le> int (length ex_unterminated)
   \<and> (\<exists>d n. channel_from_data ex_allocs ex_unterminated 22 None = Inr (Some d, n)
          \<and> name d = [65, 66, 67] \<and> topic d = [] \<and> desc d = [] \<and> n = 22)"
proof -
  have l: "(19::int) \<le> 22" "22 \<le> int (length ex_unterminated)" "(22::int) < 2 ^ 31"
    by (simp_all add: ex_unterminated_def)
  from decode_never_rejects [OF ex_allocs_all l, of None] ex_allocs_all l show ?thesis
    by (auto simp add: ex_unterminated_def cstr_def)
qed

end
